theory Spec2Isabelle
  imports Complex_Main
begin

section \<open>The transaction ledger of \<open>ui/src/transaction.ts\<close>\<close>

subsection \<open>Data model\<close>

text \<open>
  \<open>TxStatus\<close> is a string enum: every member has the string value that the source
  assigns to it. The refresh loop tests a looked-up status for truthiness, and a
  JavaScript string is truthy exactly when it is not empty.
\<close>

datatype TxStatus = PendingApproval | AwaitingInclusion | Included | Rejected

fun TxStatus_value :: "TxStatus \<Rightarrow> string" where
  "TxStatus_value PendingApproval = ''Pending Approval''"
| "TxStatus_value AwaitingInclusion = ''Awaiting inclusion''"
| "TxStatus_value Included = ''Included''"
| "TxStatus_value Rejected = ''Rejected''"

text \<open>
  \<open>PoolTx\<close> is the tagged union of the four payload interfaces; the tag is the
  \<open>kind\<close> field and the amount (a \<open>BigNumberish\<close>) is an unbounded integer.
\<close>

datatype PoolTx =
    TopUp int
  | CollectFunds int
  | UpdateMonthlyContribution int
  | UpdateBeneficiaries

record Tx =
  hash :: string
  status :: TxStatus
  inner :: PoolTx

text \<open>
  The fields of a \<open>ContractTransaction\<close> that the smart constructors read.
  \<open>blockNumber\<close> is optional in the contract bindings: \<open>None\<close> stands for an absent
  (undefined or null) block number, \<open>Some n\<close> for the block height \<open>n\<close>.
\<close>

record ContractTransaction =
  txc_hash :: string
  blockNumber :: "int option"
  txc_value :: int

subsection \<open>Truthiness\<close>

text \<open>
  The conditional \<open>txc.blockNumber ? a : b\<close> takes the first branch when the block
  number is truthy: present and not zero.
\<close>

fun truthy_number :: "int option \<Rightarrow> bool" where
  "truthy_number None = False"
| "truthy_number (Some n) = (n \<noteq> 0)"

text \<open>\<open>if (newStatus)\<close> on a value of type \<open>TxStatus | undefined\<close>.\<close>

fun truthy_status :: "TxStatus option \<Rightarrow> bool" where
  "truthy_status None = False"
| "truthy_status (Some s) = (TxStatus_value s \<noteq> [])"

subsection \<open>Smart constructors\<close>

definition initial_status :: "ContractTransaction \<Rightarrow> TxStatus" where
  "initial_status txc =
     (if truthy_number (blockNumber txc) then Included else AwaitingInclusion)"

definition amountPerBlock :: "ContractTransaction \<Rightarrow> Tx" where
  "amountPerBlock txc =
     \<lparr>hash = txc_hash txc, status = initial_status txc,
      inner = UpdateMonthlyContribution (txc_value txc)\<rparr>"

definition beneficiaries :: "ContractTransaction \<Rightarrow> Tx" where
  "beneficiaries txc =
     \<lparr>hash = txc_hash txc, status = initial_status txc,
      inner = UpdateBeneficiaries\<rparr>"

definition collect :: "ContractTransaction \<Rightarrow> Tx" where
  "collect txc =
     \<lparr>hash = txc_hash txc, status = initial_status txc,
      inner = CollectFunds (txc_value txc)\<rparr>"

definition topUp :: "ContractTransaction \<Rightarrow> Tx" where
  "topUp txc =
     \<lparr>hash = txc_hash txc, status = initial_status txc,
      inner = TopUp (txc_value txc)\<rparr>"

subsection \<open>The store\<close>

text \<open>
  A record is an object, and the array in the store holds references to objects:
  \<open>add\<close> pushes the reference it is handed, \<open>txs.find\<close> returns a reference, and an
  assignment to \<open>tx.status\<close> changes the one object behind it, at every position of
  the array that refers to it. So the store has a heap, from addresses to objects, and
  the array is a list of addresses. What a reader of the store sees is \<open>ledger\<close>: the
  objects behind the array, in its order.

  The ledger lives in a svelte writable store. \<open>store.update fn\<close> replaces the value
  by \<open>fn value\<close> and then runs every registered subscriber on the new value, in the
  order of registration. \<open>store.subscribe run\<close> runs \<open>run\<close> on the current value at
  once and keeps it registered until the returned handle is called.

  \<open>updateStatus\<close> reads the ledger through \<open>store.subscribe\<close> and drops the handle,
  so each of its calls leaves one subscriber behind: the closure over the hash and the
  status of that call. The store therefore carries these closures, as the pairs they
  close over. Subscribers of the presentation layer only read the value and are left
  out.
\<close>

type_synonym addr = nat

record store =
  heap :: "addr \<Rightarrow> Tx"
  txs :: "addr list"
  subscribers :: "(string \<times> TxStatus) list"

definition ledger :: "store \<Rightarrow> Tx list" where
  "ledger st = map (heap st) (txs st)"

text \<open>\<open>txs.find(tx => tx.hash === hash)\<close>: the first reference to an object with the hash.\<close>

definition find_tx :: "string \<Rightarrow> addr list \<Rightarrow> (addr \<Rightarrow> Tx) \<Rightarrow> addr option" where
  "find_tx h refs hp = List.find (\<lambda>a. hash (hp a) = h) refs"

text \<open>
  The callback of \<open>updateStatus\<close>: the status of the object found is assigned;
  without such an object nothing happens.
\<close>

definition find_set_status ::
  "string \<Rightarrow> TxStatus \<Rightarrow> addr list \<Rightarrow> (addr \<Rightarrow> Tx) \<Rightarrow> (addr \<Rightarrow> Tx)" where
  "find_set_status h s refs hp =
     (case find_tx h refs hp of
        None \<Rightarrow> hp
      | Some a \<Rightarrow> hp(a := (hp a)\<lparr>status := s\<rparr>))"

definition notify ::
  "(string \<times> TxStatus) list \<Rightarrow> addr list \<Rightarrow> (addr \<Rightarrow> Tx) \<Rightarrow> (addr \<Rightarrow> Tx)" where
  "notify subs refs hp = foldl (\<lambda>acc (h, s). find_set_status h s refs acc) hp subs"

text \<open>
  The function handed to \<open>store.update\<close> works on the array and, through it, on the
  objects; the subscribers then run on what it returns.
\<close>

definition store_update ::
  "(addr list \<times> (addr \<Rightarrow> Tx) \<Rightarrow> addr list \<times> (addr \<Rightarrow> Tx)) \<Rightarrow> store \<Rightarrow> store" where
  "store_update fn st =
     (case fn (txs st, heap st) of
        (refs, hp) \<Rightarrow> st\<lparr>txs := refs, heap := notify (subscribers st) refs hp\<rparr>)"

definition store_subscribe :: "string \<Rightarrow> TxStatus \<Rightarrow> store \<Rightarrow> store" where
  "store_subscribe h s st =
     st\<lparr>heap := find_set_status h s (txs st) (heap st),
        subscribers := subscribers st @ [(h, s)]\<rparr>"

subsection \<open>Ledger operations\<close>

text \<open>
  \<open>txs.length = Math.min(txs.length, 7)\<close>: assigning a length that is at most the
  current one keeps that many leading elements and drops the rest.
\<close>

definition cap_fn :: "addr list \<times> (addr \<Rightarrow> Tx) \<Rightarrow> addr list \<times> (addr \<Rightarrow> Tx)" where
  "cap_fn v = (case v of (refs, hp) \<Rightarrow> (take (min (length refs) 7) refs, hp))"

definition cap :: "store \<Rightarrow> store" where
  "cap st = store_update cap_fn st"

definition add :: "addr \<Rightarrow> store \<Rightarrow> store" where
  "add tx st = cap (store_update (\<lambda>(refs, hp). (refs @ [tx], hp)) st)"

definition updateStatus :: "string \<Rightarrow> TxStatus \<Rightarrow> store \<Rightarrow> store" where
  "updateStatus h s st = store_subscribe h s st"

text \<open>
  The status lookup is a capability outside the ledger, possibly random or stateful:
  it maps a hash and the state of the outside world to an answer and the next state
  of the world. It is taken to return, with a status or with \<open>undefined\<close>, as its
  type says and as the shipped one does.
\<close>

type_synonym 'w lookup = "string \<Rightarrow> 'w \<Rightarrow> TxStatus option \<times> 'w"

definition refresh_tx :: "TxStatus option \<Rightarrow> Tx \<Rightarrow> Tx" where
  "refresh_tx newStatus tx =
     (if truthy_status newStatus then tx\<lparr>status := the newStatus\<rparr> else tx)"

fun forEach_lookup ::
  "'w lookup \<Rightarrow> addr list \<Rightarrow> (addr \<Rightarrow> Tx) \<Rightarrow> 'w \<Rightarrow> (addr \<Rightarrow> Tx) \<times> 'w" where
  "forEach_lookup lk [] hp w = (hp, w)"
| "forEach_lookup lk (tx # rest) hp w =
     (case lk (hash (hp tx)) w of
        (newStatus, w') \<Rightarrow>
          forEach_lookup lk rest (hp(tx := refresh_tx newStatus (hp tx))) w')"

definition updateAll :: "'w lookup \<Rightarrow> store \<Rightarrow> 'w \<Rightarrow> store \<times> 'w" where
  "updateAll lk st w =
     (store_update (\<lambda>(refs, hp). (refs, fst (forEach_lookup lk refs hp w))) st,
      snd (forEach_lookup lk (txs st) (heap st) w))"

text \<open>
  The callback handed to \<open>setInterval\<close> is \<open>() => updateAll\<close>: its body is the
  name of the function, so a firing yields the function as a value, calls nothing and
  leaves the store and the world as they are.
\<close>

definition poll_callback ::
  "'w lookup \<Rightarrow> store \<times> 'w \<Rightarrow> (store \<Rightarrow> 'w \<Rightarrow> store \<times> 'w) \<times> (store \<times> 'w)" where
  "poll_callback lk sw = (updateAll lk, sw)"

definition POLL_INTERVAL_MILLIS :: nat where
  "POLL_INTERVAL_MILLIS = 10000"

subsection \<open>The shipped lookup\<close>

text \<open>
  \<open>Math.random()\<close> yields a number \<open>r\<close> with \<open>0 \<le> r < 1\<close>; the draw is a parameter
  here. The product with 4 is a scaling by a power of two, which floating point
  performs without rounding, so the real product is the computed one. Reading an array
  outside its bounds yields \<open>undefined\<close>.
\<close>

definition randomInt :: "real \<Rightarrow> real \<Rightarrow> int" where
  "randomInt r mx = \<lfloor>r * of_int \<lfloor>mx\<rfloor>\<rfloor>"

definition statuses :: "TxStatus list" where
  "statuses = [PendingApproval, AwaitingInclusion, Included, Rejected]"

definition js_index :: "'a list \<Rightarrow> int \<Rightarrow> 'a option" where
  "js_index xs i = (if 0 \<le> i \<and> i < int (length xs) then Some (xs ! nat i) else None)"

definition lookupStatus :: "real \<Rightarrow> string \<Rightarrow> TxStatus option" where
  "lookupStatus r h = js_index statuses (randomInt r (of_nat (length statuses)))"

text \<open>The shipped lookup as a capability: the world is the stream of draws to come.\<close>

definition lookupStatus_draws :: "(nat \<Rightarrow> real) \<Rightarrow> nat lookup" where
  "lookupStatus_draws draws h k = (lookupStatus (draws k) h, Suc k)"

subsection \<open>Sequences of calls\<close>

datatype call = Add addr | UpdateStatus string TxStatus | RefreshAll

fun step :: "'w lookup \<Rightarrow> call \<Rightarrow> store \<times> 'w \<Rightarrow> store \<times> 'w" where
  "step lk (Add tx) (st, w) = (add tx st, w)"
| "step lk (UpdateStatus h s) (st, w) = (updateStatus h s st, w)"
| "step lk RefreshAll (st, w) = updateAll lk st w"

fun run :: "'w lookup \<Rightarrow> call list \<Rightarrow> store \<times> 'w \<Rightarrow> store \<times> 'w" where
  "run lk [] sw = sw"
| "run lk (c # cs) sw = run lk cs (step lk c sw)"

definition add_all :: "addr list \<Rightarrow> store \<Rightarrow> store" where
  "add_all xs st = foldl (\<lambda>acc tx. add tx acc) st xs"


text \<open>
  The store before any call: an empty array and no subscriber, over a heap. The heap
  \<open>heap_of objs\<close> holds the listed objects at the addresses 0, 1, ... and a blank
  object everywhere else.
\<close>

definition empty_store :: "(addr \<Rightarrow> Tx) \<Rightarrow> store" where
  "empty_store hp = \<lparr>heap = hp, txs = [], subscribers = []\<rparr>"

definition heap_of :: "Tx list \<Rightarrow> addr \<Rightarrow> Tx" where
  "heap_of objs a =
     (if a < length objs then objs ! a
      else \<lparr>hash = [], status = PendingApproval, inner = UpdateBeneficiaries\<rparr>)"

subsection \<open>The sketch in the pool module\<close>

text \<open>
  The sketch keeps its records in a module-level array. \<open>addTx\<close> pushes and does
  nothing else; \<open>cap\<close> cuts the array to five elements and has no caller.
\<close>

definition sketch_addTx :: "'a \<Rightarrow> 'a list \<Rightarrow> 'a list" where
  "sketch_addTx tx transactions = transactions @ [tx]"

definition sketch_cap :: "'a list \<Rightarrow> 'a list" where
  "sketch_cap transactions = take (min (length transactions) 5) transactions"

section \<open>Properties\<close>

subsection \<open>The sketch\<close>

lemma sketch_cap_length: "length (sketch_cap transactions) = min (length transactions) 5"
  by (simp add: sketch_cap_def)

lemma sketch_addTx_length: "length (sketch_addTx tx transactions) = Suc (length transactions)"
  by (simp add: sketch_addTx_def)

subsection \<open>What a subscriber run and a refresh leave alone\<close>

lemma hash_find_set_status: "hash (find_set_status h s refs hp a) = hash (hp a)"
  by (simp add: find_set_status_def split: option.splits)

lemma inner_find_set_status: "inner (find_set_status h s refs hp a) = inner (hp a)"
  by (simp add: find_set_status_def split: option.splits)

lemma notify_Nil: "notify [] refs hp = hp"
  by (simp add: notify_def)

lemma notify_Cons: "notify ((h, s) # subs) refs hp = notify subs refs (find_set_status h s refs hp)"
  by (simp add: notify_def)

lemma notify_snoc: "notify (subs @ [(h, s)]) refs hp = find_set_status h s refs (notify subs refs hp)"
  by (simp add: notify_def)

lemma hash_notify: "hash (notify subs refs hp a) = hash (hp a)"
proof (induction subs arbitrary: hp)
  case Nil
  show ?case by (simp add: notify_Nil)
next
  case (Cons p subs)
  obtain h s where p: "p = (h, s)" by (cases p)
  show ?case unfolding p notify_Cons by (simp add: Cons.IH hash_find_set_status)
qed

lemma inner_notify: "inner (notify subs refs hp a) = inner (hp a)"
proof (induction subs arbitrary: hp)
  case Nil
  show ?case by (simp add: notify_Nil)
next
  case (Cons p subs)
  obtain h s where p: "p = (h, s)" by (cases p)
  show ?case unfolding p notify_Cons by (simp add: Cons.IH inner_find_set_status)
qed

lemma hash_refresh_tx: "hash (refresh_tx a tx) = hash tx"
  by (simp add: refresh_tx_def)

lemma inner_refresh_tx: "inner (refresh_tx a tx) = inner tx"
  by (simp add: refresh_tx_def)

lemma forEach_lookup_Cons:
  "forEach_lookup lk (tx # rest) hp w =
     forEach_lookup lk rest (hp(tx := refresh_tx (fst (lk (hash (hp tx)) w)) (hp tx)))
       (snd (lk (hash (hp tx)) w))"
  by (simp split: prod.splits)

lemma hash_forEach_lookup: "hash (fst (forEach_lookup lk refs hp w) a) = hash (hp a)"
proof (induction refs arbitrary: hp w)
  case Nil
  show ?case by simp
next
  case (Cons r refs)
  show ?case unfolding forEach_lookup_Cons by (simp add: Cons.IH hash_refresh_tx)
qed

lemma inner_forEach_lookup: "inner (fst (forEach_lookup lk refs hp w) a) = inner (hp a)"
proof (induction refs arbitrary: hp w)
  case Nil
  show ?case by simp
next
  case (Cons r refs)
  show ?case unfolding forEach_lookup_Cons by (simp add: Cons.IH inner_refresh_tx)
qed

lemma txs_updateAll: "txs (fst (updateAll lk st w)) = txs st"
  by (simp add: updateAll_def store_update_def)

lemma heap_updateAll:
  "heap (fst (updateAll lk st w)) =
     notify (subscribers st) (txs st) (fst (forEach_lookup lk (txs st) (heap st) w))"
  by (simp add: updateAll_def store_update_def)

lemma subscribers_updateAll: "subscribers (fst (updateAll lk st w)) = subscribers st"
  by (simp add: updateAll_def store_update_def)

lemma hash_heap_updateAll: "hash (heap (fst (updateAll lk st w)) a) = hash (heap st a)"
  by (simp add: heap_updateAll hash_notify hash_forEach_lookup)

lemma inner_heap_updateAll: "inner (heap (fst (updateAll lk st w)) a) = inner (heap st a)"
  by (simp add: heap_updateAll inner_notify inner_forEach_lookup)

subsection \<open>The records that \<open>add\<close> retains\<close>

lemma cap_fn_take: "cap_fn (refs, hp) = (take 7 refs, hp)"
  by (simp add: cap_fn_def min_def)

lemma txs_add: "txs (add tx st) = take 7 (txs st @ [tx])"
  by (simp add: add_def cap_def store_update_def cap_fn_take)

lemma heap_add:
  "heap (add tx st) =
     notify (subscribers st) (take 7 (txs st @ [tx]))
       (notify (subscribers st) (txs st @ [tx]) (heap st))"
  by (simp add: add_def cap_def store_update_def cap_fn_take)

lemma subscribers_add: "subscribers (add tx st) = subscribers st"
  by (simp add: add_def cap_def store_update_def cap_fn_take)


lemma take_take_append: "take n (take n xs @ ys) = take n (xs @ ys)"
proof (cases "length xs \<le> n")
  case True
  then show ?thesis by simp
next
  case False
  then show ?thesis by simp
qed

lemma add_all_Nil: "add_all [] st = st"
  by (simp add: add_all_def)

lemma add_all_Cons: "add_all (x # xs) st = add_all xs (add x st)"
  by (simp add: add_all_def)

lemma txs_add_all_step: "txs (add_all xs (add x st)) = take 7 (txs st @ x # xs)"
proof (induction xs arbitrary: x st)
  case Nil
  show ?case by (simp add: add_all_Nil txs_add)
next
  case (Cons y ys)
  have "txs (add_all (y # ys) (add x st)) = take 7 (txs (add x st) @ y # ys)"
    unfolding add_all_Cons by (rule Cons.IH)
  also have "\<dots> = take 7 (take 7 (txs st @ [x]) @ y # ys)"
    by (simp only: txs_add)
  also have "\<dots> = take 7 ((txs st @ [x]) @ y # ys)"
    by (rule take_take_append)
  finally show ?case by simp
qed

text \<open>
  From an empty ledger the array after any sequence of \<open>add\<close> calls holds the first
  seven references added, in the order of the calls.
\<close>

lemma txs_add_all_empty: "txs st = [] \<Longrightarrow> txs (add_all xs st) = take 7 xs"
proof (cases xs)
  case Nil
  assume "txs st = []"
  with Nil show ?thesis by (simp add: add_all_Nil)
next
  case (Cons y ys)
  assume "txs st = []"
  with Cons show ?thesis
    using txs_add_all_step [of ys y st] by (simp add: add_all_Cons)
qed



lemma length_ledger: "length (ledger st) = length (txs st)"
  by (simp add: ledger_def)


subsection \<open>Length of the ledger\<close>

text \<open>
  Claim C3, amended. In \<open>transaction.ts\<close>, starting from an empty ledger, after every
  sequence of \<open>add\<close> calls the length of the ledger is the minimum of the number of
  calls and 7; so the length never exceeds 7.
\<close>

theorem add_length_min:
  "txs st = [] \<Longrightarrow>
     length (ledger (add_all xs st)) = min (length xs) 7 \<and> length (ledger (add_all xs st)) \<le> 7"
  by (simp add: length_ledger txs_add_all_empty)

theorem add_length_min_witness:
  "txs \<lparr>heap = heap_of
          [\<lparr>hash = ''0x1'', status = AwaitingInclusion, inner = TopUp 100\<rparr>,
           \<lparr>hash = ''0x2'', status = Included, inner = UpdateBeneficiaries\<rparr>],
        txs = [], subscribers = [(''0x2'', Rejected)]\<rparr> = [] \<and>
   length (ledger (add_all [0, 1]
      \<lparr>heap = heap_of
          [\<lparr>hash = ''0x1'', status = AwaitingInclusion, inner = TopUp 100\<rparr>,
           \<lparr>hash = ''0x2'', status = Included, inner = UpdateBeneficiaries\<rparr>],
        txs = [], subscribers = [(''0x2'', Rejected)]\<rparr>)) = 2"
  using add_length_min [of "\<lparr>heap = heap_of
          [\<lparr>hash = ''0x1'', status = AwaitingInclusion, inner = TopUp 100\<rparr>,
           \<lparr>hash = ''0x2'', status = Included, inner = UpdateBeneficiaries\<rparr>],
        txs = [], subscribers = [(''0x2'', Rejected)]\<rparr>" "[0, 1]"]
  by simp

text \<open>
  In the sketch six calls of \<open>addTx\<close> on the empty array leave six records, one more
  than the limit of its \<open>cap\<close>.
\<close>

theorem sketch_addTx_exceeds_cap:
  "length (foldl (\<lambda>transactions tx. sketch_addTx tx transactions) []
      (map (\<lambda>h. \<lparr>hash = h, status = AwaitingInclusion, inner = TopUp 1\<rparr>)
        [''h1'', ''h2'', ''h3'', ''h4'', ''h5'', ''h6''])) = 6 \<and>
   length (foldl (\<lambda>transactions tx. sketch_addTx tx transactions) []
      (map (\<lambda>h. \<lparr>hash = h, status = AwaitingInclusion, inner = TopUp 1\<rparr>)
        [''h1'', ''h2'', ''h3'', ''h4'', ''h5'', ''h6''])) \<noteq> min 6 5"
  by (simp add: sketch_addTx_def)

subsection \<open>The frame of a refresh\<close>

text \<open>
  Claim C5. For every store and every lookup, stateful or not, \<open>updateAll\<close> leaves the
  length of the ledger, the sequence of hashes and the sequence of payloads as they
  were: it changes no field but \<open>status\<close> and moves no record. The array of references
  itself is unchanged.
\<close>

theorem updateAll_frame:
  "length (ledger (fst (updateAll lk st w))) = length (ledger st) \<and>
   map hash (ledger (fst (updateAll lk st w))) = map hash (ledger st) \<and>
   map inner (ledger (fst (updateAll lk st w))) = map inner (ledger st) \<and>
   txs (fst (updateAll lk st w)) = txs st"
  by (simp add: ledger_def txs_updateAll hash_heap_updateAll inner_heap_updateAll)

subsection \<open>Which records \<open>add\<close> keeps\<close>

text \<open>
  Claim C1. Eight records are added to the empty ledger, with hashes \<open>h1\<close> to
  \<open>h8\<close> in this order. The ledger retains the first seven, \<open>h1\<close> to \<open>h7\<close>: the
  record added last is the one that \<open>cap\<close> drops, and the ledger is not the seven
  most recently added records \<open>h2\<close> to \<open>h8\<close>.
\<close>

theorem add_drops_newest:
  "ledger (add_all [0, 1, 2, 3, 4, 5, 6, 7]
      (empty_store (heap_of
        (map (\<lambda>h. \<lparr>hash = h, status = AwaitingInclusion, inner = TopUp 1\<rparr>)
          [''h1'', ''h2'', ''h3'', ''h4'', ''h5'', ''h6'', ''h7'', ''h8''])))) =
     map (\<lambda>h. \<lparr>hash = h, status = AwaitingInclusion, inner = TopUp 1\<rparr>)
       [''h1'', ''h2'', ''h3'', ''h4'', ''h5'', ''h6'', ''h7''] \<and>
   map hash (ledger (add_all [0, 1, 2, 3, 4, 5, 6, 7]
      (empty_store (heap_of
        (map (\<lambda>h. \<lparr>hash = h, status = AwaitingInclusion, inner = TopUp 1\<rparr>)
          [''h1'', ''h2'', ''h3'', ''h4'', ''h5'', ''h6'', ''h7'', ''h8'']))))) \<noteq>
     [''h2'', ''h3'', ''h4'', ''h5'', ''h6'', ''h7'', ''h8'']"
  by (simp add: add_all_def ledger_def txs_add heap_add subscribers_add empty_store_def
      notify_Nil heap_of_def)

subsection \<open>The polling timer\<close>

lemma poll_callback_state: "snd (poll_callback lk sw) = sw"
  by (simp add: poll_callback_def)

text \<open>
  Claim C8. A firing of the timer callback on a ledger with one record awaiting
  inclusion, with a lookup that answers \<open>Included\<close>, leaves the ledger as it is, where
  a call of \<open>updateAll\<close> sets the record to \<open>Included\<close>: the callback does not perform
  the refresh.
\<close>

theorem poll_callback_no_refresh:
  "snd (poll_callback (\<lambda>h w. (Some Included, w))
     (add 0 (empty_store (heap_of
        [\<lparr>hash = ''0x1'', status = AwaitingInclusion, inner = TopUp 100\<rparr>])), ())) =
     (add 0 (empty_store (heap_of
        [\<lparr>hash = ''0x1'', status = AwaitingInclusion, inner = TopUp 100\<rparr>])), ()) \<and>
   ledger (add 0 (empty_store (heap_of
        [\<lparr>hash = ''0x1'', status = AwaitingInclusion, inner = TopUp 100\<rparr>]))) =
     [\<lparr>hash = ''0x1'', status = AwaitingInclusion, inner = TopUp 100\<rparr>] \<and>
   ledger (fst (updateAll (\<lambda>h w. (Some Included, w))
     (add 0 (empty_store (heap_of
        [\<lparr>hash = ''0x1'', status = AwaitingInclusion, inner = TopUp 100\<rparr>]))) ())) =
     [\<lparr>hash = ''0x1'', status = Included, inner = TopUp 100\<rparr>]"
  by (simp add: poll_callback_def ledger_def txs_updateAll heap_updateAll txs_add heap_add
      subscribers_add empty_store_def notify_Nil heap_of_def refresh_tx_def)

subsection \<open>Hashes of the retained records\<close>

lemma txs_updateStatus: "txs (updateStatus h s st) = txs st"
  by (simp add: updateStatus_def store_subscribe_def)

lemma heap_updateStatus:
  "heap (updateStatus h s st) = find_set_status h s (txs st) (heap st)"
  by (simp add: updateStatus_def store_subscribe_def)

lemma subscribers_updateStatus:
  "subscribers (updateStatus h s st) = subscribers st @ [(h, s)]"
  by (simp add: updateStatus_def store_subscribe_def)








subsection \<open>Status updates by hash\<close>

lemma find_tx_None: "find_tx h refs hp = None \<longleftrightarrow> h \<notin> set (map hash (map hp refs))"
  by (auto simp: find_tx_def find_None_iff)

lemma find_tx_Some_hash: "find_tx h refs hp = Some a \<Longrightarrow> hash (hp a) = h \<and> a \<in> set refs"
  by (auto simp: find_tx_def find_Some_iff)

lemma find_set_status_apply:
  "find_set_status h s refs hp a =
     (if find_tx h refs hp = Some a then (hp a)\<lparr>status := s\<rparr> else hp a)"
  by (auto simp: find_set_status_def split: option.splits)

text \<open>
  \<open>updateStatus\<close> leaves the array as it is and assigns the status of one object at
  most, the first in the array with the hash, keeping its other fields; when no
  retained record has the hash, the ledger right after the call is the ledger before.
\<close>

lemma updateStatus_one_object:
  "txs (updateStatus h s st) = txs st \<and>
   heap (updateStatus h s st) =
     (case find_tx h (txs st) (heap st) of
        None \<Rightarrow> heap st
      | Some a \<Rightarrow> (heap st)(a := (heap st a)\<lparr>status := s\<rparr>))"
  by (simp add: txs_updateStatus heap_updateStatus find_set_status_def)

lemma updateStatus_absent_ledger:
  "h \<notin> set (map hash (ledger st)) \<Longrightarrow> ledger (updateStatus h s st) = ledger st"
proof -
  assume "h \<notin> set (map hash (ledger st))"
  then have "find_tx h (txs st) (heap st) = None"
    by (simp add: find_tx_None ledger_def)
  then show ?thesis
    by (simp add: ledger_def txs_updateStatus heap_updateStatus find_set_status_def)
qed

text \<open>
  When one object has been added twice, the array refers to it at two positions and
  the one assignment shows at both.
\<close>

lemma updateStatus_shared_object:
  "ledger (updateStatus ''0x1'' Rejected (add 0 (add 0 (empty_store (heap_of
      [\<lparr>hash = ''0x1'', status = AwaitingInclusion, inner = TopUp 100\<rparr>]))))) =
     [\<lparr>hash = ''0x1'', status = Rejected, inner = TopUp 100\<rparr>,
      \<lparr>hash = ''0x1'', status = Rejected, inner = TopUp 100\<rparr>]"
  by (simp add: ledger_def txs_add heap_add subscribers_add txs_updateStatus heap_updateStatus
      find_set_status_def find_tx_def notify_def empty_store_def heap_of_def)

text \<open>
  Claim C6. \<open>updateStatus\<close> is called with a hash that no record has, on the empty
  ledger. The ledger is empty after the call as before it, but the call has left its
  subscriber in the store: the record added afterwards under that hash with status
  \<open>AwaitingInclusion\<close> is in the ledger with the status \<open>Rejected\<close> of the earlier
  call, where without that call it is in the ledger as it was added. So the call was
  not without effect.
\<close>

theorem updateStatus_absent_not_noop:
  "ledger (updateStatus ''0x9'' Rejected (empty_store (heap_of
      [\<lparr>hash = ''0x9'', status = AwaitingInclusion, inner = TopUp 100\<rparr>]))) = [] \<and>
   subscribers (updateStatus ''0x9'' Rejected (empty_store (heap_of
      [\<lparr>hash = ''0x9'', status = AwaitingInclusion, inner = TopUp 100\<rparr>]))) =
     [(''0x9'', Rejected)] \<and>
   ledger (add 0 (empty_store (heap_of
      [\<lparr>hash = ''0x9'', status = AwaitingInclusion, inner = TopUp 100\<rparr>]))) =
     [\<lparr>hash = ''0x9'', status = AwaitingInclusion, inner = TopUp 100\<rparr>] \<and>
   ledger (add 0 (updateStatus ''0x9'' Rejected (empty_store (heap_of
      [\<lparr>hash = ''0x9'', status = AwaitingInclusion, inner = TopUp 100\<rparr>])))) =
     [\<lparr>hash = ''0x9'', status = Rejected, inner = TopUp 100\<rparr>]"
  by (simp add: ledger_def txs_add heap_add subscribers_add txs_updateStatus heap_updateStatus
      subscribers_updateStatus find_set_status_def find_tx_def notify_def empty_store_def
      heap_of_def)

subsection \<open>The refresh and the subscribers\<close>

lemma truthy_status_Some: "truthy_status (Some s)"
  by (cases s) simp_all

lemma refresh_tx_Some: "refresh_tx (Some s) tx = tx\<lparr>status := s\<rparr>"
  by (simp add: refresh_tx_def truthy_status_Some del: truthy_status.simps)

lemma refresh_tx_None: "refresh_tx None tx = tx"
  by (simp add: refresh_tx_def)

text \<open>
  Claim C4. A record is added with status \<open>AwaitingInclusion\<close> and \<open>updateStatus\<close>
  sets it to \<open>PendingApproval\<close>. A refresh with a lookup that answers \<open>Included\<close>
  follows. The loop of \<open>updateAll\<close> assigns \<open>Included\<close> to the record, and the
  subscriber that \<open>updateStatus\<close> left in the store then assigns \<open>PendingApproval\<close>
  again: after \<open>updateAll\<close> the record does not have the status that the lookup
  returned.
\<close>

theorem updateAll_overridden_by_subscriber:
  "ledger (updateStatus ''0x1'' PendingApproval (add 0 (empty_store (heap_of
      [\<lparr>hash = ''0x1'', status = AwaitingInclusion, inner = TopUp 100\<rparr>])))) =
     [\<lparr>hash = ''0x1'', status = PendingApproval, inner = TopUp 100\<rparr>] \<and>
   map (fst (forEach_lookup (\<lambda>h w. (Some Included, w)) [0]
      (heap (updateStatus ''0x1'' PendingApproval (add 0 (empty_store (heap_of
        [\<lparr>hash = ''0x1'', status = AwaitingInclusion, inner = TopUp 100\<rparr>]))))) ())) [0] =
     [\<lparr>hash = ''0x1'', status = Included, inner = TopUp 100\<rparr>] \<and>
   ledger (fst (updateAll (\<lambda>h w. (Some Included, w))
     (updateStatus ''0x1'' PendingApproval (add 0 (empty_store (heap_of
      [\<lparr>hash = ''0x1'', status = AwaitingInclusion, inner = TopUp 100\<rparr>])))) ())) =
     [\<lparr>hash = ''0x1'', status = PendingApproval, inner = TopUp 100\<rparr>]"
  by (simp add: ledger_def txs_updateAll heap_updateAll subscribers_updateAll
      txs_add heap_add subscribers_add txs_updateStatus heap_updateStatus
      subscribers_updateStatus find_set_status_def find_tx_def notify_def empty_store_def
      heap_of_def refresh_tx_Some)

subsection \<open>No guard on terminal statuses\<close>

lemma find_tx_same_hashes:
  "\<forall>a. hash (hp' a) = hash (hp a) \<Longrightarrow> find_tx h refs hp' = find_tx h refs hp"
  by (simp add: find_tx_def)

lemma find_tx_notify: "find_tx h refs (notify subs refs' hp) = find_tx h refs hp"
  by (rule find_tx_same_hashes) (simp add: hash_notify)

lemma find_tx_find_set_status:
  "find_tx h refs (find_set_status h' s refs' hp) = find_tx h refs hp"
  by (rule find_tx_same_hashes) (simp add: hash_find_set_status)

text \<open>
  What a run of the subscribers does to one object: when the object is the first in
  the array with its hash and some subscriber is for that hash, it gets the status of
  the last such subscriber, and otherwise it is left as it is.
\<close>

lemma notify_apply:
  "notify subs refs hp a =
     (case map_of (rev subs) (hash (hp a)) of
        None \<Rightarrow> hp a
      | Some s \<Rightarrow> if find_tx (hash (hp a)) refs hp = Some a then (hp a)\<lparr>status := s\<rparr> else hp a)"
proof (induction subs rule: rev_induct)
  case Nil
  show ?case by (simp add: notify_Nil)
next
  case (snoc p subs)
  obtain h s where p: "p = (h, s)" by (cases p)
  let ?hp1 = "notify subs refs hp"
  have step: "notify (subs @ [(h, s)]) refs hp a =
      (if find_tx h refs hp = Some a then (?hp1 a)\<lparr>status := s\<rparr> else ?hp1 a)"
    by (simp add: notify_snoc find_set_status_apply find_tx_notify)
  have goal: "notify (subs @ [(h, s)]) refs hp a =
     (case map_of (rev (subs @ [(h, s)])) (hash (hp a)) of
        None \<Rightarrow> hp a
      | Some s \<Rightarrow> if find_tx (hash (hp a)) refs hp = Some a then (hp a)\<lparr>status := s\<rparr> else hp a)"
  proof (cases "hash (hp a) = h")
    case True
    show ?thesis
    proof (cases "find_tx h refs hp = Some a")
      case first: True
      have "(?hp1 a)\<lparr>status := s\<rparr> = (hp a)\<lparr>status := s\<rparr>"
        using first True by (simp add: snoc.IH split: option.splits)
      with first True show ?thesis by (simp add: step)
    next
      case other: False
      have "?hp1 a = hp a"
        using other True by (simp add: snoc.IH split: option.splits)
      with other True show ?thesis by (simp add: step)
    qed
  next
    case False
    then have "find_tx h refs hp \<noteq> Some a"
      using find_tx_Some_hash [of h refs hp a] by auto
    with False show ?thesis by (simp add: step snoc.IH)
  qed
  then show ?case by (simp only: p)
qed

lemma notify_idem: "notify subs refs (notify subs refs hp) = notify subs refs hp"
proof
  fix a
  let ?n = "notify subs refs hp"
  have "notify subs refs ?n a =
     (case map_of (rev subs) (hash (hp a)) of
        None \<Rightarrow> ?n a
      | Some s \<Rightarrow> if find_tx (hash (hp a)) refs hp = Some a then (?n a)\<lparr>status := s\<rparr> else ?n a)"
    by (simp add: notify_apply [of subs refs ?n a] hash_notify find_tx_notify
        cong: option.case_cong)
  moreover have "?n a =
     (case map_of (rev subs) (hash (hp a)) of
        None \<Rightarrow> hp a
      | Some s \<Rightarrow> if find_tx (hash (hp a)) refs hp = Some a then (hp a)\<lparr>status := s\<rparr> else hp a)"
    by (rule notify_apply)
  ultimately show "notify subs refs ?n a = ?n a"
    by (simp split: option.splits)
qed

text \<open>
  In every store that the calls produce, running the subscribers once more changes
  nothing: each object they would assign to has the status they would assign.
\<close>

lemma settled_add:
  "notify (subscribers (add tx st)) (txs (add tx st)) (heap (add tx st)) = heap (add tx st)"
  by (simp add: heap_add subscribers_add txs_add notify_idem)

lemma settled_updateAll:
  "notify (subscribers (fst (updateAll lk st w))) (txs (fst (updateAll lk st w)))
     (heap (fst (updateAll lk st w))) = heap (fst (updateAll lk st w))"
  by (simp add: heap_updateAll subscribers_updateAll txs_updateAll notify_idem)

lemma settled_updateStatus:
  assumes "notify (subscribers st) (txs st) (heap st) = heap st"
  shows "notify (subscribers (updateStatus h s st)) (txs (updateStatus h s st))
     (heap (updateStatus h s st)) = heap (updateStatus h s st)"
proof -
  let ?hp = "heap st" and ?refs = "txs st" and ?subs = "subscribers st"
  let ?hp' = "find_set_status h s ?refs ?hp"
  have "notify (?subs @ [(h, s)]) ?refs ?hp' = ?hp'"
  proof
    fix a
    have old: "?hp a =
       (case map_of (rev ?subs) (hash (?hp a)) of
          None \<Rightarrow> ?hp a
        | Some s' \<Rightarrow> if find_tx (hash (?hp a)) ?refs ?hp = Some a
                      then (?hp a)\<lparr>status := s'\<rparr> else ?hp a)"
      using notify_apply [of ?subs ?refs ?hp a] assms by simp
    have new: "notify (?subs @ [(h, s)]) ?refs ?hp' a =
       (case map_of (rev (?subs @ [(h, s)])) (hash (?hp a)) of
          None \<Rightarrow> ?hp' a
        | Some s' \<Rightarrow> if find_tx (hash (?hp a)) ?refs ?hp = Some a
                      then (?hp' a)\<lparr>status := s'\<rparr> else ?hp' a)"
      by (simp add: notify_apply [of "?subs @ [(h, s)]" ?refs ?hp' a]
          hash_find_set_status find_tx_find_set_status cong: option.case_cong)
    show "notify (?subs @ [(h, s)]) ?refs ?hp' a = ?hp' a"
    proof (cases "hash (?hp a) = h")
      case True
      then show ?thesis
        by (simp add: new find_set_status_apply)
    next
      case False
      then have "find_tx h ?refs ?hp \<noteq> Some a"
        using find_tx_Some_hash [of h ?refs ?hp a] by auto
      then have same: "?hp' a = ?hp a" by (simp add: find_set_status_apply)
      from False have "notify (?subs @ [(h, s)]) ?refs ?hp' a =
         (case map_of (rev ?subs) (hash (?hp a)) of
          None \<Rightarrow> ?hp a
        | Some s' \<Rightarrow> if find_tx (hash (?hp a)) ?refs ?hp = Some a
                      then (?hp a)\<lparr>status := s'\<rparr> else ?hp a)"
        by (simp add: new same split: option.splits)
      with old same show ?thesis by simp
    qed
  qed
  then show ?thesis
    by (simp add: txs_updateStatus heap_updateStatus subscribers_updateStatus)
qed

lemma settled_step:
  "notify (subscribers (fst sw)) (txs (fst sw)) (heap (fst sw)) = heap (fst sw) \<Longrightarrow>
   notify (subscribers (fst (step lk c sw))) (txs (fst (step lk c sw)))
     (heap (fst (step lk c sw))) = heap (fst (step lk c sw))"
proof (cases sw)
  case (Pair st w)
  assume "notify (subscribers (fst sw)) (txs (fst sw)) (heap (fst sw)) = heap (fst sw)"
  with Pair have old: "notify (subscribers st) (txs st) (heap st) = heap st" by simp
  show ?thesis
  proof (cases c)
    case (Add tx)
    with Pair show ?thesis by (simp add: settled_add)
  next
    case (UpdateStatus h s)
    with Pair old show ?thesis by (simp add: settled_updateStatus)
  next
    case RefreshAll
    with Pair show ?thesis by (simp add: settled_updateAll)
  qed
qed

lemma settled_run:
  "notify (subscribers (fst sw)) (txs (fst sw)) (heap (fst sw)) = heap (fst sw) \<Longrightarrow>
   notify (subscribers (fst (run lk cs sw))) (txs (fst (run lk cs sw)))
     (heap (fst (run lk cs sw))) = heap (fst (run lk cs sw))"
proof (induction cs arbitrary: sw)
  case Nil
  then show ?case by simp
next
  case (Cons c cs)
  from Cons.prems have "notify (subscribers (fst (step lk c sw))) (txs (fst (step lk c sw)))
     (heap (fst (step lk c sw))) = heap (fst (step lk c sw))"
    by (rule settled_step)
  then show ?case unfolding run.simps by (rule Cons.IH)
qed

lemma settled_empty_store:
  "notify (subscribers (empty_store hp)) (txs (empty_store hp)) (heap (empty_store hp)) =
     heap (empty_store hp)"
  by (simp add: empty_store_def notify_Nil)

lemma find_set_status_keep:
  "(h = hash (hp a) \<longrightarrow> s = status (hp a)) \<Longrightarrow> find_set_status h s refs hp a = hp a"
  using find_tx_Some_hash [of h refs hp a] by (auto simp: find_set_status_apply)

lemma forEach_lookup_keep:
  "\<forall>w. fst (lk (hash (hp a)) w) = None \<or> fst (lk (hash (hp a)) w) = Some (status (hp a)) \<Longrightarrow>
     fst (forEach_lookup lk refs hp w) a = hp a"
proof (induction refs arbitrary: hp w)
  case Nil
  show ?case by simp
next
  case (Cons r refs)
  let ?hp1 = "hp(r := refresh_tx (fst (lk (hash (hp r)) w)) (hp r))"
  have same: "?hp1 a = hp a"
  proof (cases "r = a")
    case True
    from Cons.prems have "fst (lk (hash (hp a)) w) = None \<or>
        fst (lk (hash (hp a)) w) = Some (status (hp a))" by simp
    then have "refresh_tx (fst (lk (hash (hp a)) w)) (hp a) = hp a"
      by (auto simp: refresh_tx_None refresh_tx_Some)
    with True show ?thesis by simp
  next
    case False
    then show ?thesis by simp
  qed
  have "\<forall>w. fst (lk (hash (?hp1 a)) w) = None \<or>
      fst (lk (hash (?hp1 a)) w) = Some (status (?hp1 a))"
    using Cons.prems unfolding same .
  then have "fst (forEach_lookup lk refs ?hp1 (snd (lk (hash (hp r)) w))) a = ?hp1 a"
    by (rule Cons.IH)
  then show ?case by (simp only: forEach_lookup_Cons same)
qed

lemma notify_keep_settled:
  assumes settled: "notify subs refs hp = hp"
    and hashes: "\<forall>b. hash (hp1 b) = hash (hp b)"
    and same: "hp1 a = hp a"
  shows "notify subs refs hp1 a = hp a"
proof -
  have "notify subs refs hp1 a =
     (case map_of (rev subs) (hash (hp a)) of
        None \<Rightarrow> hp a
      | Some s \<Rightarrow> if find_tx (hash (hp a)) refs hp = Some a then (hp a)\<lparr>status := s\<rparr> else hp a)"
    by (simp add: notify_apply [of subs refs hp1 a] same find_tx_same_hashes [OF hashes]
        split: option.splits)
  also have "\<dots> = notify subs refs hp a" by (rule notify_apply [symmetric])
  finally show ?thesis by (simp only: settled)
qed

lemma step_keep:
  assumes settled: "notify (subscribers st) (txs st) (heap st) = heap st"
    and c: "c = RefreshAll \<or>
      (\<exists>h s. c = UpdateStatus h s \<and> (h = hash (heap st a) \<longrightarrow> s = status (heap st a)))"
    and lk: "\<forall>w. fst (lk (hash (heap st a)) w) = None \<or>
      fst (lk (hash (heap st a)) w) = Some (status (heap st a))"
  shows "heap (fst (step lk c (st, w))) a = heap st a \<and> txs (fst (step lk c (st, w))) = txs st"
proof -
  from c show ?thesis
  proof
    assume c: "c = RefreshAll"
    let ?hp1 = "fst (forEach_lookup lk (txs st) (heap st) w)"
    have "?hp1 a = heap st a" using lk by (rule forEach_lookup_keep)
    with settled have "notify (subscribers st) (txs st) ?hp1 a = heap st a"
      by (intro notify_keep_settled) (simp_all add: hash_forEach_lookup)
    then show ?thesis by (simp add: c heap_updateAll txs_updateAll)
  next
    assume "\<exists>h s. c = UpdateStatus h s \<and> (h = hash (heap st a) \<longrightarrow> s = status (heap st a))"
    then obtain h s where c: "c = UpdateStatus h s"
      and hs: "h = hash (heap st a) \<longrightarrow> s = status (heap st a)"
      by blast
    from hs have "find_set_status h s (txs st) (heap st) a = heap st a"
      by (rule find_set_status_keep)
    then show ?thesis by (simp add: c heap_updateStatus txs_updateStatus)
  qed
qed

lemma run_keep:
  "notify (subscribers st) (txs st) (heap st) = heap st \<Longrightarrow>
   \<forall>c \<in> set cs. c = RefreshAll \<or>
      (\<exists>h s. c = UpdateStatus h s \<and> (h = hash (heap st a) \<longrightarrow> s = status (heap st a))) \<Longrightarrow>
   \<forall>w. fst (lk (hash (heap st a)) w) = None \<or>
      fst (lk (hash (heap st a)) w) = Some (status (heap st a)) \<Longrightarrow>
   heap (fst (run lk cs (st, w))) a = heap st a \<and> txs (fst (run lk cs (st, w))) = txs st"
proof (induction cs arbitrary: st w)
  case Nil
  show ?case by simp
next
  case (Cons c cs)
  obtain st' w' where sw: "step lk c (st, w) = (st', w')" by (cases "step lk c (st, w)")
  have c: "c = RefreshAll \<or>
      (\<exists>h s. c = UpdateStatus h s \<and> (h = hash (heap st a) \<longrightarrow> s = status (heap st a)))"
    using Cons.prems(2) by simp
  have "heap (fst (step lk c (st, w))) a = heap st a \<and> txs (fst (step lk c (st, w))) = txs st"
    using Cons.prems(1) c Cons.prems(3) by (rule step_keep)
  with sw have keep: "heap st' a = heap st a" and refs: "txs st' = txs st" by simp_all
  have "notify (subscribers (fst (step lk c (st, w)))) (txs (fst (step lk c (st, w))))
     (heap (fst (step lk c (st, w)))) = heap (fst (step lk c (st, w)))"
    by (rule settled_step) (simp add: Cons.prems(1))
  with sw have settled': "notify (subscribers st') (txs st') (heap st') = heap st'" by simp
  have "heap (fst (run lk cs (st', w'))) a = heap st' a \<and> txs (fst (run lk cs (st', w'))) = txs st'"
  proof (rule Cons.IH)
    show "notify (subscribers st') (txs st') (heap st') = heap st'" by (rule settled')
    show "\<forall>c \<in> set cs. c = RefreshAll \<or>
      (\<exists>h s. c = UpdateStatus h s \<and> (h = hash (heap st' a) \<longrightarrow> s = status (heap st' a)))"
      using Cons.prems(2) by (simp add: keep)
    show "\<forall>w. fst (lk (hash (heap st' a)) w) = None \<or>
      fst (lk (hash (heap st' a)) w) = Some (status (heap st' a))"
      using Cons.prems(3) by (simp add: keep)
  qed
  with sw keep refs show ?case by simp
qed

text \<open>
  Claim C2, amended. The ledger does not guard \<open>Included\<close> and \<open>Rejected\<close>:
  \<open>updateStatus\<close> assigns the status it is given to a record that has one of them.
  What holds for every record retained in a ledger that calls of \<open>add\<close>,
  \<open>updateStatus\<close> and \<open>updateAll\<close> have built from the empty one, whatever its status
  and so also at \<open>Included\<close> or \<open>Rejected\<close>: no subsequent sequence of \<open>updateStatus\<close>
  and \<open>updateAll\<close> calls changes the record, provided that none of these
  \<open>updateStatus\<close> calls names its hash with another status and that the lookup answers
  for its hash with nothing or with the status it has.
\<close>

theorem record_kept:
  assumes "st = fst (run lk0 cs0 (empty_store hp0, w0))"
    and "i < length (ledger st)"
    and "\<forall>c \<in> set cs. c = RefreshAll \<or>
           (\<exists>h s. c = UpdateStatus h s \<and>
              (h = hash (ledger st ! i) \<longrightarrow> s = status (ledger st ! i)))"
    and "\<forall>w. fst (lk (hash (ledger st ! i)) w) = None \<or>
             fst (lk (hash (ledger st ! i)) w) = Some (status (ledger st ! i))"
  shows "ledger (fst (run lk cs (st, w))) ! i = ledger st ! i"
proof -
  let ?a = "txs st ! i"
  from assms(2) have i: "i < length (txs st)" by (simp add: length_ledger)
  then have nth: "ledger st ! i = heap st ?a" by (simp add: ledger_def)
  have "notify (subscribers (fst (run lk0 cs0 (empty_store hp0, w0))))
      (txs (fst (run lk0 cs0 (empty_store hp0, w0))))
      (heap (fst (run lk0 cs0 (empty_store hp0, w0)))) =
      heap (fst (run lk0 cs0 (empty_store hp0, w0)))"
    by (rule settled_run) (simp add: settled_empty_store)
  then have settled: "notify (subscribers st) (txs st) (heap st) = heap st"
    by (simp only: assms(1))
  have "heap (fst (run lk cs (st, w))) ?a = heap st ?a \<and> txs (fst (run lk cs (st, w))) = txs st"
    using settled assms(3) assms(4) unfolding nth by (rule run_keep)
  with i show ?thesis by (simp add: ledger_def)
qed

theorem record_kept_witness:
  "status (ledger (fst (run (\<lambda>h w. (if h = ''0x2'' then Some Included else None, w))
       [UpdateStatus ''0x2'' Rejected, RefreshAll, UpdateStatus ''0x1'' Included]
       (fst (run (\<lambda>h w. (None, w))
          [Add 0, Add 1, UpdateStatus ''0x1'' AwaitingInclusion, UpdateStatus ''0x1'' Included]
          (empty_store (heap_of
             [\<lparr>hash = ''0x1'', status = PendingApproval, inner = TopUp 100\<rparr>,
              \<lparr>hash = ''0x2'', status = AwaitingInclusion, inner = CollectFunds 5\<rparr>]), ())),
        ()))) ! 0) = Included"
proof -
  let ?st = "fst (run (\<lambda>h w. (None, w))
          [Add 0, Add 1, UpdateStatus ''0x1'' AwaitingInclusion, UpdateStatus ''0x1'' Included]
          (empty_store (heap_of
             [\<lparr>hash = ''0x1'', status = PendingApproval, inner = TopUp 100\<rparr>,
              \<lparr>hash = ''0x2'', status = AwaitingInclusion, inner = CollectFunds 5\<rparr>]), ()))"
  let ?cs = "[UpdateStatus ''0x2'' Rejected, RefreshAll, UpdateStatus ''0x1'' Included]"
  let ?lk = "\<lambda>h w. (if h = ''0x2'' then Some Included else None, w)"
  have l: "ledger ?st =
      [\<lparr>hash = ''0x1'', status = Included, inner = TopUp 100\<rparr>,
       \<lparr>hash = ''0x2'', status = AwaitingInclusion, inner = CollectFunds 5\<rparr>]"
    by (simp add: ledger_def txs_add heap_add subscribers_add txs_updateStatus
        heap_updateStatus subscribers_updateStatus find_set_status_def find_tx_def
        notify_def empty_store_def heap_of_def)
  have a1: "0 < length (ledger ?st)"
    by (simp only: l, simp)
  have a2: "\<forall>c \<in> set ?cs. c = RefreshAll \<or>
           (\<exists>h s. c = UpdateStatus h s \<and>
              (h = hash (ledger ?st ! 0) \<longrightarrow> s = status (ledger ?st ! 0)))"
    by (simp only: l, simp)
  have a3: "\<forall>w. fst (?lk (hash (ledger ?st ! 0)) w) = None \<or>
             fst (?lk (hash (ledger ?st ! 0)) w) = Some (status (ledger ?st ! 0))"
    by (simp only: l, simp)
  have "ledger (fst (run ?lk ?cs (?st, ()))) ! 0 = ledger ?st ! 0"
    using refl a1 a2 a3 by (rule record_kept)
  also have "ledger ?st ! 0 = \<lparr>hash = ''0x1'', status = Included, inner = TopUp 100\<rparr>"
    by (simp only: l, simp)
  finally have "status (ledger (fst (run ?lk ?cs (?st, ()))) ! 0) =
      status \<lparr>hash = ''0x1'', status = Included, inner = TopUp 100\<rparr>"
    by (rule arg_cong)
  also have "\<dots> = Included" by simp
  finally show ?thesis .
qed

text \<open>
  A record at \<open>Included\<close> is moved to \<open>PendingApproval\<close> by \<open>updateStatus\<close>, and a
  record at \<open>Rejected\<close> is moved to \<open>AwaitingInclusion\<close> by \<open>updateAll\<close> when the
  lookup answers so.
\<close>

theorem terminal_overwritten:
  "ledger (add 0 (empty_store (heap_of
      [\<lparr>hash = ''0x1'', status = Included, inner = TopUp 100\<rparr>]))) =
     [\<lparr>hash = ''0x1'', status = Included, inner = TopUp 100\<rparr>] \<and>
   ledger (updateStatus ''0x1'' PendingApproval (add 0 (empty_store (heap_of
      [\<lparr>hash = ''0x1'', status = Included, inner = TopUp 100\<rparr>])))) =
     [\<lparr>hash = ''0x1'', status = PendingApproval, inner = TopUp 100\<rparr>] \<and>
   ledger (add 0 (empty_store (heap_of
      [\<lparr>hash = ''0x2'', status = Rejected, inner = UpdateBeneficiaries\<rparr>]))) =
     [\<lparr>hash = ''0x2'', status = Rejected, inner = UpdateBeneficiaries\<rparr>] \<and>
   ledger (fst (updateAll (\<lambda>h w. (Some AwaitingInclusion, w))
      (add 0 (empty_store (heap_of
        [\<lparr>hash = ''0x2'', status = Rejected, inner = UpdateBeneficiaries\<rparr>]))) ())) =
     [\<lparr>hash = ''0x2'', status = AwaitingInclusion, inner = UpdateBeneficiaries\<rparr>]"
  by (simp add: ledger_def txs_updateAll heap_updateAll subscribers_updateAll
      txs_add heap_add subscribers_add txs_updateStatus heap_updateStatus
      find_set_status_def find_tx_def notify_def empty_store_def heap_of_def refresh_tx_Some)

subsection \<open>Smart constructors\<close>

text \<open>
  Claim C9, amended. For every contract transaction each of the four smart constructors
  returns a record with the hash of the transaction and its own kind of payload, and
  with status \<open>Included\<close> exactly when the block number is truthy, that is present and
  not zero; with an absent block number or block number 0 the status is
  \<open>AwaitingInclusion\<close>.
\<close>

theorem constructors_initial_status:
  "hash (amountPerBlock txc) = txc_hash txc \<and> hash (beneficiaries txc) = txc_hash txc \<and>
   hash (collect txc) = txc_hash txc \<and> hash (topUp txc) = txc_hash txc \<and>
   inner (amountPerBlock txc) = UpdateMonthlyContribution (txc_value txc) \<and>
   inner (beneficiaries txc) = UpdateBeneficiaries \<and>
   inner (collect txc) = CollectFunds (txc_value txc) \<and>
   inner (topUp txc) = TopUp (txc_value txc) \<and>
   status (amountPerBlock txc) =
     (if blockNumber txc = None \<or> blockNumber txc = Some 0 then AwaitingInclusion else Included) \<and>
   status (beneficiaries txc) =
     (if blockNumber txc = None \<or> blockNumber txc = Some 0 then AwaitingInclusion else Included) \<and>
   status (collect txc) =
     (if blockNumber txc = None \<or> blockNumber txc = Some 0 then AwaitingInclusion else Included) \<and>
   status (topUp txc) =
     (if blockNumber txc = None \<or> blockNumber txc = Some 0 then AwaitingInclusion else Included)"
  by (cases "blockNumber txc")
    (simp_all add: amountPerBlock_def beneficiaries_def collect_def topUp_def initial_status_def)

text \<open>
  A transaction reported with block number 0 has a block number, and \<open>topUp\<close> starts
  it at \<open>AwaitingInclusion\<close>.
\<close>

theorem block_zero_not_included:
  "blockNumber \<lparr>txc_hash = ''0xabc'', blockNumber = Some 0, txc_value = 5\<rparr> \<noteq> None \<and>
   status (topUp \<lparr>txc_hash = ''0xabc'', blockNumber = Some 0, txc_value = 5\<rparr>) =
     AwaitingInclusion"
  by (simp add: topUp_def initial_status_def)

subsection \<open>The shipped lookup\<close>

lemma randomInt_range: "0 \<le> r \<Longrightarrow> r < 1 \<Longrightarrow> 0 \<le> randomInt r 4 \<and> randomInt r 4 < 4"
  unfolding randomInt_def by (simp add: floor_less_iff le_floor_iff)

lemma length_statuses: "length statuses = 4"
  by (simp add: statuses_def)

lemma lookupStatus_Some:
  "0 \<le> r \<Longrightarrow> r < 1 \<Longrightarrow> lookupStatus r h = Some (statuses ! nat (randomInt r 4))"
  using randomInt_range [of r] by (simp add: lookupStatus_def js_index_def length_statuses)

text \<open>
  Claim C10. For every hash and every draw \<open>r\<close> with \<open>0 \<le> r < 1\<close> the index that
  \<open>lookupStatus\<close> computes lies within the four-element array, the result is the
  status at that index and never undefined, it is truthy, and the refresh of a record
  with it takes the branch that overwrites the status.
\<close>

theorem lookupStatus_defined:
  assumes "0 \<le> r" and "r < 1"
  shows "0 \<le> randomInt r (of_nat (length statuses)) \<and>
     randomInt r (of_nat (length statuses)) < int (length statuses) \<and>
     lookupStatus r h = Some (statuses ! nat (randomInt r (of_nat (length statuses)))) \<and>
     lookupStatus r h \<in> {Some PendingApproval, Some AwaitingInclusion, Some Included, Some Rejected} \<and>
     truthy_status (lookupStatus r h) \<and>
     refresh_tx (lookupStatus r h) tx = tx\<lparr>status := the (lookupStatus r h)\<rparr>"
proof -
  have rng: "0 \<le> randomInt r 4 \<and> randomInt r 4 < 4" using assms by (rule randomInt_range)
  have def: "lookupStatus r h = Some (statuses ! nat (randomInt r 4))"
    using assms by (rule lookupStatus_Some)
  have four: "Some s \<in> {Some PendingApproval, Some AwaitingInclusion, Some Included, Some Rejected}"
    for s by (cases s) simp_all
  have tr: "truthy_status (lookupStatus r h)" by (simp only: def truthy_status_Some)
  have "refresh_tx (lookupStatus r h) tx = tx\<lparr>status := the (lookupStatus r h)\<rparr>"
    by (simp only: def refresh_tx_Some option.sel)
  with rng def tr four [of "statuses ! nat (randomInt r 4)"] show ?thesis
    by (simp add: length_statuses)
qed

theorem lookupStatus_defined_witness:
  "(0::real) \<le> 1 / 2 \<and> (1 / 2 :: real) < 1 \<and> randomInt (1 / 2) 4 = 2 \<and>
   lookupStatus (1 / 2) ''0x1'' = Some Included"
  using lookupStatus_defined [of "1 / 2" "''0x1''"]
  by (simp add: randomInt_def statuses_def)

text \<open>
  So a refresh round with the shipped lookup overwrites the status of every record:
  when no object is retained twice, the record at position \<open>i\<close> gets the status
  that the draw of its call selects.
\<close>

lemma fst_lookupStatus_draws: "fst (lookupStatus_draws draws h k) = lookupStatus (draws k) h"
  by (simp add: lookupStatus_draws_def)

lemma snd_lookupStatus_draws: "snd (lookupStatus_draws draws h k) = Suc k"
  by (simp add: lookupStatus_draws_def)

lemma forEach_lookup_other:
  "a \<notin> set refs \<Longrightarrow> fst (forEach_lookup lk refs hp w) a = hp a"
proof (induction refs arbitrary: hp w)
  case Nil
  show ?case by simp
next
  case (Cons r refs)
  from Cons.prems have "a \<notin> set refs" and "r \<noteq> a" by auto
  then show ?case unfolding forEach_lookup_Cons by (simp add: Cons.IH)
qed

lemma forEach_lookupStatus_nth:
  "\<forall>n. 0 \<le> draws n \<and> draws n < 1 \<Longrightarrow> distinct refs \<Longrightarrow> i < length refs \<Longrightarrow>
     fst (forEach_lookup (lookupStatus_draws draws) refs hp k) (refs ! i) =
       (hp (refs ! i))\<lparr>status := statuses ! nat (randomInt (draws (k + i)) 4)\<rparr>"
proof (induction refs arbitrary: i hp k)
  case Nil
  then show ?case by simp
next
  case (Cons r refs)
  let ?hp1 = "hp(r := (hp r)\<lparr>status := statuses ! nat (randomInt (draws k) 4)\<rparr>)"
  have here: "lookupStatus (draws k) (hash (hp r)) = Some (statuses ! nat (randomInt (draws k) 4))"
    using Cons.prems(1) by (simp add: lookupStatus_Some)
  have unfold: "forEach_lookup (lookupStatus_draws draws) (r # refs) hp k =
      forEach_lookup (lookupStatus_draws draws) refs ?hp1 (Suc k)"
    by (simp only: forEach_lookup_Cons fst_lookupStatus_draws snd_lookupStatus_draws here
        refresh_tx_Some)
  from Cons.prems(2) have r: "r \<notin> set refs" and d: "distinct refs" by simp_all
  show ?case
  proof (cases i)
    case 0
    have "fst (forEach_lookup (lookupStatus_draws draws) refs ?hp1 (Suc k)) r = ?hp1 r"
      using r by (rule forEach_lookup_other)
    then show ?thesis by (simp add: 0 unfold del: forEach_lookup.simps(2))
  next
    case (Suc j)
    with Cons.prems(3) have j: "j < length refs" by simp
    with r have ne: "refs ! j \<noteq> r" by (metis nth_mem)
    have "fst (forEach_lookup (lookupStatus_draws draws) refs ?hp1 (Suc k)) (refs ! j) =
       (?hp1 (refs ! j))\<lparr>status := statuses ! nat (randomInt (draws (Suc k + j)) 4)\<rparr>"
      using Cons.prems(1) d j by (rule Cons.IH)
    with ne show ?thesis by (simp add: Suc unfold del: forEach_lookup.simps(2))
  qed
qed

end
